theory Spec2Isabelle
  imports Complex_Main "HOL-Library.Multiset" "HOL-Library.Sublist"
begin

section \<open>Python values shared by the modules\<close>

text \<open>
  Exceptions are values: a function that can raise returns \<open>py_exception + 'a\<close>, with
  \<open>Inl\<close> for the exception that propagates. The constructors are the exceptions the
  modelled code can meet: those Python raises itself on a missing key, a missing attribute
  or a wrong operand type, a failed \<open>assert\<close>, the two errors of opening and parsing the
  manifest, and \<open>OtherError name\<close> for any other exception class raised by the operating
  system or by a third-party library. \<open>exc_class\<close> is the name of the exception's class.
\<close>

datatype py_exception =
    AssertionError
  | FileNotFoundError
  | JSONDecodeError
  | KeyError string
  | AttributeError
  | TypeError
  | OtherError string

fun exc_class :: "py_exception \<Rightarrow> string" where
  "exc_class AssertionError = ''AssertionError''"
| "exc_class FileNotFoundError = ''FileNotFoundError''"
| "exc_class JSONDecodeError = ''JSONDecodeError''"
| "exc_class (KeyError k) = ''KeyError''"
| "exc_class AttributeError = ''AttributeError''"
| "exc_class TypeError = ''TypeError''"
| "exc_class (OtherError name) = name"

text \<open>
  \<open>str.lower()\<close> on the characters of type \<open>char\<close>: the letters A to Z are mapped to a to z,
  every other character is left as it is.
\<close>

definition lower_char :: "char \<Rightarrow> char" where
  "lower_char c =
     (case map_of (zip ''ABCDEFGHIJKLMNOPQRSTUVWXYZ'' ''abcdefghijklmnopqrstuvwxyz'') c of
        None \<Rightarrow> c
      | Some l \<Rightarrow> l)"

definition lower :: "string \<Rightarrow> string" where
  "lower s = map lower_char s"

text \<open>\<open>sep.join(xs)\<close>\<close>

fun join :: "string \<Rightarrow> string list \<Rightarrow> string" where
  "join sep [] = []"
| "join sep [x] = x"
| "join sep (x # y # ys) = x @ sep @ join sep (y # ys)"

text \<open>
  \<open>os.path.join(a, b)\<close> and the extension part of \<open>os.path.splitext(p)\<close>, for POSIX
  paths: an absolute second component replaces the first; the extension starts at the
  last dot of the last path component, leading dots of that component not counted.
\<close>

definition os_path_join :: "string \<Rightarrow> string \<Rightarrow> string" where
  "os_path_join a b =
     (if take 1 b = ''/'' then b
      else if a = [] \<or> last a = CHR ''/'' then a @ b
      else a @ ''/'' @ b)"

definition splitext_ext :: "string \<Rightarrow> string" where
  "splitext_ext p =
     (let base = rev (takeWhile (\<lambda>c. c \<noteq> CHR ''/'') (rev p));
          core = dropWhile (\<lambda>c. c = CHR ''.'') base
      in if CHR ''.'' \<in> set core
         then CHR ''.'' # rev (takeWhile (\<lambda>c. c \<noteq> CHR ''.'') (rev core))
         else [])"

text \<open>
  What \<open>json.load\<close> returns. A JSON object is the Python dictionary it was parsed into,
  kept as an association list with distinct keys and read with \<open>map_of\<close>.
\<close>

datatype json =
    JNull
  | JBool bool
  | JNumber int
  | JString string
  | JArray "json list"
  | JObject "(string \<times> json) list"

text \<open>
  The world outside the program: the file system, the JSON parser and the optional
  parsing libraries. A library that failed to import is \<open>None\<close>, as the module-level
  \<open>try: import ... except Exception: X = None\<close> blocks make it.
  \<^item> \<open>open_text p\<close> is \<open>open(p, "r", encoding="utf-8")\<close> followed by \<open>read()\<close>;
    \<open>open_text_ignore\<close> is the same with \<open>errors="ignore"\<close>; \<open>open_bytes\<close> opens with \<open>"rb"\<close>.
  \<^item> \<open>BeautifulSoup html\<close> is \<open>BeautifulSoup(html, "html.parser").get_text(separator="\n")\<close>.
  \<^item> \<open>pypdf f\<close> is \<open>pypdf.PdfReader(f).pages\<close>, each page given by what its
    \<open>extract_text()\<close> does: raise, return \<open>None\<close> or return a string.
  \<^item> \<open>docx p\<close> is the list of \<open>p.text\<close> for the paragraphs of \<open>docx.Document(p)\<close>.
\<close>

record env =
  MANIFEST_PATH :: string
  path_exists :: "string \<Rightarrow> bool"
  open_text :: "string \<Rightarrow> py_exception + string"
  open_text_ignore :: "string \<Rightarrow> py_exception + string"
  open_bytes :: "string \<Rightarrow> py_exception + string"
  json_loads :: "string \<Rightarrow> py_exception + json"
  BeautifulSoup :: "(string \<Rightarrow> py_exception + string) option"
  pypdf :: "(string \<Rightarrow> py_exception + (py_exception + string option) list) option"
  docx :: "(string \<Rightarrow> py_exception + string list) option"

section \<open>Source manifest (agent/knowledge/manifest.py)\<close>

text \<open>
  \<open>SourceEntry\<close> is a dataclass; its constructor checks no types, so each field holds
  whatever JSON value the manifest gave. The fields \<open>id\<close> and \<open>type\<close> carry a prime,
  since \<open>id\<close> is a constant of HOL.
\<close>

record SourceEntry =
  id' :: json
  title :: json
  type' :: json
  path :: json
  citation :: json
  scope :: json

datatype SourcesManifest = SourcesManifest (sources: "SourceEntry list")

text \<open>
  The three operations \<open>load\<close> applies to parsed JSON: \<open>obj.get(k, default)\<close>, which only
  a dictionary has; \<open>obj[k]\<close> with a string key, which raises \<open>KeyError\<close> on a dictionary
  without the key and \<open>TypeError\<close> on anything else; and iteration, which yields the
  elements of a list, the keys of a dictionary and the characters of a string.
\<close>

definition dict_get :: "json \<Rightarrow> string \<Rightarrow> json \<Rightarrow> py_exception + json" where
  "dict_get obj k dflt =
     (case obj of
        JObject kvs \<Rightarrow> Inr (case map_of kvs k of None \<Rightarrow> dflt | Some v \<Rightarrow> v)
      | _ \<Rightarrow> Inl AttributeError)"

definition subscript :: "json \<Rightarrow> string \<Rightarrow> py_exception + json" where
  "subscript obj k =
     (case obj of
        JObject kvs \<Rightarrow> (case map_of kvs k of None \<Rightarrow> Inl (KeyError k) | Some v \<Rightarrow> Inr v)
      | _ \<Rightarrow> Inl TypeError)"

definition iterate :: "json \<Rightarrow> py_exception + json list" where
  "iterate v =
     (case v of
        JArray xs \<Rightarrow> Inr xs
      | JObject kvs \<Rightarrow> Inr (map (\<lambda>kv. JString (fst kv)) kvs)
      | JString s \<Rightarrow> Inr (map (\<lambda>c. JString [c]) s)
      | _ \<Rightarrow> Inl TypeError)"

text \<open>
  The call \<open>SourceEntry(id=item["id"], ..., scope=item.get("scope", []))\<close>: the arguments
  are evaluated in the order written and the first that raises ends the call.
\<close>

definition make_entry :: "json \<Rightarrow> py_exception + SourceEntry" where
  "make_entry item =
     (case subscript item ''id'' of Inl e \<Rightarrow> Inl e | Inr i \<Rightarrow>
      case subscript item ''title'' of Inl e \<Rightarrow> Inl e | Inr t \<Rightarrow>
      case subscript item ''type'' of Inl e \<Rightarrow> Inl e | Inr ty \<Rightarrow>
      case subscript item ''path'' of Inl e \<Rightarrow> Inl e | Inr p \<Rightarrow>
      case dict_get item ''citation'' (JString []) of Inl e \<Rightarrow> Inl e | Inr c \<Rightarrow>
      case dict_get item ''scope'' (JArray []) of Inl e \<Rightarrow> Inl e | Inr s \<Rightarrow>
        Inr \<lparr>id' = i, title = t, type' = ty, path = p, citation = c, scope = s\<rparr>)"

text \<open>The loop \<open>for item in data.get("sources", [])\<close>, with \<open>entries\<close> as its state.\<close>

fun load_entries :: "json list \<Rightarrow> SourceEntry list \<Rightarrow> py_exception + SourceEntry list" where
  "load_entries [] entries = Inr entries"
| "load_entries (item # items) entries =
     (case make_entry item of
        Inl e \<Rightarrow> Inl e
      | Inr entry \<Rightarrow> load_entries items (entries @ [entry]))"

text \<open>\<open>path or MANIFEST_PATH\<close>: \<open>None\<close> and the empty string both give the default.\<close>

definition manifest_path_of :: "env \<Rightarrow> string option \<Rightarrow> string" where
  "manifest_path_of env path_arg =
     (case path_arg of
        None \<Rightarrow> MANIFEST_PATH env
      | Some p \<Rightarrow> if p = [] then MANIFEST_PATH env else p)"

text \<open>
  \<open>SourcesManifest.load\<close>. Nothing in it catches an exception, and the module defines
  no exception class of its own: whatever \<open>open\<close>, \<open>json.load\<close> or the construction of an
  entry raises is what the caller gets.
\<close>

definition load :: "env \<Rightarrow> string option \<Rightarrow> py_exception + SourcesManifest" where
  "load env path_arg =
     (let manifest_path = manifest_path_of env path_arg
      in case open_text env manifest_path of Inl e \<Rightarrow> Inl e | Inr content \<Rightarrow>
         case json_loads env content of Inl e \<Rightarrow> Inl e | Inr data \<Rightarrow>
         case dict_get data ''sources'' (JArray []) of Inl e \<Rightarrow> Inl e | Inr srcs \<Rightarrow>
         case iterate srcs of Inl e \<Rightarrow> Inl e | Inr items \<Rightarrow>
         case load_entries items [] of Inl e \<Rightarrow> Inl e | Inr entries \<Rightarrow>
           Inr (SourcesManifest entries))"

text \<open>
  The vocabulary of the specification for a manifest entry: the four required fields,
  the first of them an entry lacks, and being a JSON object.
\<close>

definition required_fields :: "string list" where
  "required_fields = [''id'', ''title'', ''type'', ''path'']"

definition missing_field :: "json \<Rightarrow> string option" where
  "missing_field item =
     (case item of
        JObject kvs \<Rightarrow> find (\<lambda>k. map_of kvs k = None) required_fields
      | _ \<Rightarrow> None)"

definition is_object :: "json \<Rightarrow> bool" where
  "is_object item = (case item of JObject kvs \<Rightarrow> True | _ \<Rightarrow> False)"

section \<open>Text extraction (agent/rag/ingest.py)\<close>

text \<open>\<open>_resolve_source_path\<close>: the first of the two candidate paths that exists.\<close>

definition resolve_source_path :: "env \<Rightarrow> string \<Rightarrow> string \<Rightarrow> string option" where
  "resolve_source_path env root_dir rel_path =
     (let candidates =
            [os_path_join root_dir rel_path,
             os_path_join (os_path_join root_dir ''data'') rel_path]
      in find (path_exists env) candidates)"

text \<open>
  The loop over the pages of a PDF: \<open>text.append(page.extract_text() or "")\<close>, where a
  page whose extraction raises ends the loop with that exception.
\<close>

fun extract_pages ::
  "(py_exception + string option) list \<Rightarrow> string list \<Rightarrow> py_exception + string list" where
  "extract_pages [] text = Inr text"
| "extract_pages (page # pages) text =
     (case page of
        Inl e \<Rightarrow> Inl e
      | Inr t \<Rightarrow> extract_pages pages (text @ [case t of None \<Rightarrow> [] | Some s \<Rightarrow> s]))"

text \<open>
  \<open>_read_text\<close> (an Isabelle name cannot start with an underscore). Only the last
  branch, the plain read, is inside \<open>try: ... except Exception: return ""\<close>; in the three
  branches for HTML, PDF and DOCX every exception propagates.
\<close>

definition read_text :: "env \<Rightarrow> string \<Rightarrow> py_exception + string" where
  "read_text env abs_path =
     (let ext = lower (splitext_ext abs_path)
      in if ext \<in> set [''.html'', ''.htm''] \<and> BeautifulSoup env \<noteq> None then
           (case open_text_ignore env abs_path of
              Inl e \<Rightarrow> Inl e
            | Inr html \<Rightarrow> the (BeautifulSoup env) html)
         else if ext \<in> set [''.pdf''] \<and> pypdf env \<noteq> None then
           (case open_bytes env abs_path of
              Inl e \<Rightarrow> Inl e
            | Inr f \<Rightarrow>
                (case the (pypdf env) f of
                   Inl e \<Rightarrow> Inl e
                 | Inr pages \<Rightarrow>
                     (case extract_pages pages [] of
                        Inl e \<Rightarrow> Inl e
                      | Inr text \<Rightarrow> Inr (join [CHR 0x0A] text))))
         else if ext \<in> set [''.docx''] \<and> docx env \<noteq> None then
           (case the (docx env) abs_path of
              Inl e \<Rightarrow> Inl e
            | Inr paragraphs \<Rightarrow> Inr (join [CHR 0x0A] paragraphs))
         else
           (case open_text_ignore env abs_path of
              Inl e \<Rightarrow> Inr []
            | Inr t \<Rightarrow> Inr t))"

text \<open>
  \<open>read_text_from_source\<close>. \<open>os.path.join\<close> raises \<open>TypeError\<close> for a path that is not a
  string; \<open>if not abs_path\<close> holds for \<open>None\<close> and for the empty string.
\<close>

definition read_text_from_source :: "env \<Rightarrow> string \<Rightarrow> SourceEntry \<Rightarrow> py_exception + string" where
  "read_text_from_source env root_dir source =
     (case path source of
        JString rel_path \<Rightarrow>
          (case resolve_source_path env root_dir rel_path of
             None \<Rightarrow> Inr []
           | Some abs_path \<Rightarrow> if abs_path = [] then Inr [] else read_text env abs_path)
      | _ \<Rightarrow> Inl TypeError)"

section \<open>Checklist engine (agent/process/checklists.py)\<close>

text \<open>
  The two module-level tables are Python dictionaries with literal, pairwise distinct
  keys; they are kept as association lists in source order and read with \<open>map_of\<close>.
  The values of \<open>SYNONYMS\<close> are Python sets.
\<close>

definition REQUIRED_DOCS_BY_PROCESS :: "(string \<times> string list) list" where
  "REQUIRED_DOCS_BY_PROCESS =
     [(''Company Incorporation (Private Company)'',
         [''Articles of Association'',
          ''Board Resolution'',
          ''Incorporation Application Form'',
          ''UBO Declaration Form'',
          ''Register of Members and Directors'']),
      (''Employment Compliance'',
         [''Employment Contract'']),
      (''Data Protection Compliance'',
         [''Appropriate Policy Document'']),
      (''AoA Amendment'',
         [''Articles of Association'',
          ''Shareholder Resolution''])]"

definition SYNONYMS :: "(string \<times> string set) list" where
  "SYNONYMS =
     [(''Register of Members and Directors'',
         {''Register of Members'', ''Register of Directors''})]"

text \<open>\<open>REQUIRED_DOCS_BY_PROCESS.get(process, [])\<close>\<close>

definition required_docs :: "string \<Rightarrow> string list" where
  "required_docs process =
     (case map_of REQUIRED_DOCS_BY_PROCESS process of None \<Rightarrow> [] | Some required \<Rightarrow> required)"

text \<open>
  The body of the \<open>for req in required\<close> loop of \<open>compute_missing_docs\<close>: the state is
  the pair of lists \<open>(present, missing)\<close>, each \<open>append\<close> adds at the end. The branch for
  \<open>Board Resolution\<close> is kept as the source has it; it appends to \<open>missing\<close> like the
  final statement of the loop body.
\<close>

definition classify_req ::
  "string set \<Rightarrow> string \<Rightarrow> string list \<times> string list \<Rightarrow> string list \<times> string list" where
  "classify_req uploaded_set req st =
     (case st of (present, missing) \<Rightarrow>
        (case map_of SYNONYMS req of
           Some parts \<Rightarrow>
             if parts \<subseteq> uploaded_set then (present @ [req], missing)
             else (present, missing @ [req])
         | None \<Rightarrow>
             if req \<in> uploaded_set then (present @ [req], missing)
             else if req = ''Board Resolution'' \<and> ''Shareholder Resolution'' \<in> uploaded_set
               then (present, missing @ [req])
             else (present, missing @ [req])))"

fun classify_loop ::
  "string set \<Rightarrow> string list \<Rightarrow> string list \<times> string list \<Rightarrow> string list \<times> string list" where
  "classify_loop uploaded_set [] st = st"
| "classify_loop uploaded_set (req # reqs) st =
     classify_loop uploaded_set reqs (classify_req uploaded_set req st)"

definition compute_missing_docs :: "string \<Rightarrow> string list \<Rightarrow> string list \<times> string list" where
  "compute_missing_docs process uploaded_doc_types =
     (let required = required_docs process;
          uploaded_set = set uploaded_doc_types
      in classify_loop uploaded_set required ([], []))"

text \<open>
  The classification the specification describes, written as a predicate on one
  requirement: a composite requirement needs all of its constituent labels, any other
  requirement needs its own label.
\<close>

definition requirement_met :: "string set \<Rightarrow> string \<Rightarrow> bool" where
  "requirement_met uploaded_set req =
     (case map_of SYNONYMS req of
        Some parts \<Rightarrow> parts \<subseteq> uploaded_set
      | None \<Rightarrow> req \<in> uploaded_set)"

section \<open>Process inference (agent/process/inference.py)\<close>

text \<open>
  \<open>Counter(doc_types)[label]\<close> is the number of occurrences of \<open>label\<close>, zero for a label
  that does not occur.
\<close>

definition counts :: "string list \<Rightarrow> string \<Rightarrow> nat" where
  "counts doc_types label = count_list doc_types label"

definition infer_process :: "string list \<Rightarrow> string" where
  "infer_process doc_types =
     (if counts doc_types ''Shareholder Resolution'' \<ge> 1
         \<and> counts doc_types ''Articles of Association'' \<ge> 1
      then ''AoA Amendment''
      else if (counts doc_types ''Articles of Association'' \<ge> 1
               \<and> (counts doc_types ''Shareholder Resolution'' \<ge> 1
                  \<or> counts doc_types ''Board Resolution'' \<ge> 1))
              \<or> counts doc_types ''Incorporation Application Form'' \<ge> 1
      then ''Company Incorporation (Private Company)''
      else if counts doc_types ''Employment Contract'' \<ge> 1
      then ''Employment Compliance''
      else if counts doc_types ''Appropriate Policy Document'' \<ge> 1
      then ''Data Protection Compliance''
      else ''Unknown'')"

section \<open>Chunker (agent/rag/ingest.py, chunk_text)\<close>

text \<open>
  Python's slice \<open>xs[i:j]\<close> for integers \<open>i\<close> and \<open>j\<close>: a negative index counts from the
  end, both are clamped to the length, and an empty range gives the empty list.
\<close>

definition py_slice :: "'a list \<Rightarrow> int \<Rightarrow> int \<Rightarrow> 'a list" where
  "py_slice xs i j =
     (let n = int (length xs);
          lo = (if i < 0 then max 0 (i + n) else min i n);
          hi = (if j < 0 then max 0 (j + n) else min j n)
      in drop (nat lo) (take (nat hi) xs))"

text \<open>
  The \<open>while\<close> loop of \<open>chunk_text\<close>, with the loop variables \<open>start\<close> and \<open>chunks\<close> as
  arguments. Python integers are unbounded, so \<open>size\<close>, \<open>overlap\<close> and \<open>start\<close> are of type
  \<open>int\<close>. The loop need not terminate: not returning is the value \<open>None\<close>.
\<close>

partial_function (option) chunk_loop ::
  "string \<Rightarrow> int \<Rightarrow> int \<Rightarrow> int \<Rightarrow> string list \<Rightarrow> string list option" where
  "chunk_loop text size' overlap start chunks =
     (if start < int (length text) then
        (let en = min (int (length text)) (start + size');
             chunk = py_slice text start en;
             chunks' = (if chunk \<noteq> [] then chunks @ [chunk] else chunks)
         in if en = int (length text) then Some chunks'
            else chunk_loop text size' overlap (max 0 (en - overlap)) chunks')
      else Some chunks)"

definition chunk_text :: "string \<Rightarrow> int \<Rightarrow> int \<Rightarrow> string list option" where
  "chunk_text text size' overlap = chunk_loop text size' overlap 0 []"

declare chunk_loop.simps [code]

text \<open>
  The reassembly the specification describes: every chunk after the first loses its
  leading \<open>overlap\<close> characters, and the results are concatenated.
\<close>

definition remove_overlaps :: "int \<Rightarrow> 'a list list \<Rightarrow> 'a list" where
  "remove_overlaps overlap chunks =
     (case chunks of [] \<Rightarrow> [] | c # cs \<Rightarrow> c @ concat (map (drop (nat overlap)) cs))"

text \<open>The chunk count the specification states: \<open>ceil((len(text) - overlap) / (size - overlap))\<close>.\<close>

definition expected_chunk_count :: "string \<Rightarrow> int \<Rightarrow> int \<Rightarrow> int" where
  "expected_chunk_count text size' overlap =
     \<lceil>real_of_int (int (length text) - overlap) / real_of_int (size' - overlap)\<rceil>"

text \<open>
  The windows of a text over natural numbers, used to describe what the loop returns
  when \<open>overlap < size\<close>: a proof device, total by construction.
\<close>

function windows :: "'a list \<Rightarrow> nat \<Rightarrow> nat \<Rightarrow> nat \<Rightarrow> 'a list list" where
  "windows text n k start =
     (if k < n \<and> start + n < length text
      then take n (drop start text) # windows text n k (start + n - k)
      else [drop start text])"
  by pat_completeness auto
termination
  by (relation "measure (\<lambda>(text, n, k, start). length text - start)") auto

declare windows.simps [simp del]


section \<open>Retrieval: filter stage and re-ranker (agent/rag/ingest.py, query_improved)\<close>

text \<open>
  A candidate is the pair \<open>(d, m)\<close> of a passage text and its metadata dictionary, whose
  values \<open>query_improved\<close> has turned into strings; the dictionary is an association list
  read with \<open>map_of\<close>. \<open>get_or m k d\<close> is \<open>m.get(k, d)\<close>. Python's substring test
  \<open>s in t\<close> on strings is \<open>sublist s t\<close>.
\<close>

type_synonym metadata = "(string \<times> string) list"

type_synonym candidate = "string \<times> metadata"

definition get_or :: "metadata \<Rightarrow> string \<Rightarrow> string \<Rightarrow> string" where
  "get_or m k d = (case map_of m k of None \<Rightarrow> d | Some v \<Rightarrow> v)"

text \<open>The condition of the scope comprehension, for the lower-cased requested scopes.\<close>

definition scope_matches :: "string list \<Rightarrow> candidate \<Rightarrow> bool" where
  "scope_matches scope_lower c =
     (case c of (d, m) \<Rightarrow> list_ex (\<lambda>s. sublist s (lower (get_or m ''scope'' []))) scope_lower)"

text \<open>
  The block \<open>if filter_scopes: ...\<close>. The condition is false for \<open>None\<close> and for the
  empty list; \<open>if filtered:\<close> keeps the filtered list only when it is not empty.
\<close>

definition filter_by_scopes :: "string list option \<Rightarrow> candidate list \<Rightarrow> candidate list" where
  "filter_by_scopes filter_scopes candidates =
     (case filter_scopes of
        None \<Rightarrow> candidates
      | Some scopes \<Rightarrow>
          if scopes = [] then candidates
          else
            (let scope_lower = map lower scopes;
                 filtered = filter (scope_matches scope_lower) candidates
             in if filtered \<noteq> [] then filtered else candidates))"

text \<open>
  The condition \<open>m.get("source_id") in set(filter_source_ids)\<close>: a candidate without
  the key gives \<open>None\<close>, which is in no set of strings.
\<close>

definition source_id_matches :: "string list \<Rightarrow> candidate \<Rightarrow> bool" where
  "source_id_matches filter_source_ids c =
     (case c of (d, m) \<Rightarrow>
        (case map_of m ''source_id'' of
           None \<Rightarrow> False
         | Some v \<Rightarrow> v \<in> set filter_source_ids))"

definition filter_by_source_ids :: "string list option \<Rightarrow> candidate list \<Rightarrow> candidate list" where
  "filter_by_source_ids filter_source_ids candidates =
     (case filter_source_ids of
        None \<Rightarrow> candidates
      | Some ids \<Rightarrow>
          if ids = [] then candidates
          else
            (let filtered = filter (source_id_matches ids) candidates
             in if filtered \<noteq> [] then filtered else candidates))"

text \<open>
  \<open>sorted(xs, key=key, reverse=True)\<close>. Python's sort is stable, and with
  \<open>reverse=True\<close> it reverses the list, sorts it in ascending order and reverses the
  result, which keeps elements of equal key in their original order. \<open>sort_key\<close> is a
  stable ascending sort. The keys are taken from a linear order, which a score that is
  not a number (NaN) would not be.
\<close>

definition sorted_reverse :: "('a \<Rightarrow> 'k::linorder) \<Rightarrow> 'a list \<Rightarrow> 'a list" where
  "sorted_reverse key xs = rev (sort_key key (rev xs))"

text \<open>
  The re-ranking library: \<open>None\<close> when \<open>CrossEncoder\<close> could not be imported, otherwise
  the function from the list of (query, passage) pairs to what
  \<open>CrossEncoder(...).predict(pairs)\<close> does: raise, or return a list of scores.
\<close>

type_synonym 's cross_encoder = "(string \<times> string) list \<Rightarrow> py_exception + 's list"

text \<open>
  The block \<open>if use_reranker and CrossEncoder is not None and candidates: ...\<close>. Any
  exception inside the \<open>try\<close> leaves \<open>candidates\<close> as it was.
\<close>

definition rerank ::
  "bool \<Rightarrow> ('s::linorder) cross_encoder option \<Rightarrow> string \<Rightarrow> candidate list \<Rightarrow> candidate list" where
  "rerank use_reranker CrossEncoder query_text candidates =
     (case CrossEncoder of
        None \<Rightarrow> candidates
      | Some predict \<Rightarrow>
          if use_reranker \<and> candidates \<noteq> [] then
            (let pairs = map (\<lambda>(d, m). (query_text, d)) candidates
             in case predict pairs of
                  Inl e \<Rightarrow> candidates
                | Inr scores \<Rightarrow>
                    (let ranked = sorted_reverse snd (zip candidates scores)
                     in map fst ranked))
          else candidates)"

text \<open>
  \<open>query_improved\<close> as a whole. \<open>chromadb\<close> is \<open>None\<close> when the library is missing (the
  \<open>assert\<close> fails), otherwise the function from collection name, query text and
  \<open>n_results\<close> to the documents and metadata of the nearest neighbours, or to the
  exception of \<open>get_collection\<close> or \<open>query\<close>. A returned passage is the dictionary
  \<open>{"text": d, **m}\<close>, in which a key \<open>text\<close> of \<open>m\<close> overrides \<open>d\<close>.
\<close>

definition query_improved ::
  "(string \<Rightarrow> string \<Rightarrow> int \<Rightarrow> py_exception + string list \<times> metadata option list) option \<Rightarrow>
   ('s::linorder) cross_encoder option \<Rightarrow>
   string \<Rightarrow> int \<Rightarrow> int \<Rightarrow> string \<Rightarrow> string list option \<Rightarrow> string list option \<Rightarrow> bool \<Rightarrow>
   py_exception + metadata list" where
  "query_improved chromadb CrossEncoder query_text top_k pre_k collection_name
       filter_scopes filter_source_ids use_reranker =
     (case chromadb of
        None \<Rightarrow> Inl AssertionError
      | Some collection_query \<Rightarrow>
          (case collection_query collection_name query_text (max pre_k top_k) of
             Inl e \<Rightarrow> Inl e
           | Inr (docs, metas) \<Rightarrow>
               (let candidates0 =
                      map (\<lambda>(d, m). (d, case m of None \<Rightarrow> [] | Some md \<Rightarrow> md)) (zip docs metas);
                    candidates1 = filter_by_scopes filter_scopes candidates0;
                    candidates2 = filter_by_source_ids filter_source_ids candidates1;
                    candidates3 = rerank use_reranker CrossEncoder query_text candidates2;
                    trimmed = py_slice candidates3 0 top_k
                in Inr (map (\<lambda>(d, m).
                          (''text'', case map_of m ''text'' of None \<Rightarrow> d | Some v \<Rightarrow> v)
                            # filter (\<lambda>kv. fst kv \<noteq> ''text'') m) trimmed))))"

section \<open>Concrete inputs used by the examples\<close>

text \<open>
  A corpus with one source, \<open>data/law.pdf\<close>, an existing file of zero bytes, on a system
  where \<open>pypdf\<close> is installed: its reader raises \<open>EmptyFileError\<close> on an empty file.
\<close>

definition empty_pdf_env :: env where
  "empty_pdf_env =
     \<lparr>MANIFEST_PATH = ''data/sources_manifest.json'',
      path_exists = (\<lambda>p. p = ''corpus/data/law.pdf''),
      open_text = (\<lambda>p. Inl FileNotFoundError),
      open_text_ignore = (\<lambda>p. if p = ''corpus/data/law.pdf'' then Inr [] else Inl FileNotFoundError),
      open_bytes = (\<lambda>p. if p = ''corpus/data/law.pdf'' then Inr [] else Inl FileNotFoundError),
      json_loads = (\<lambda>s. Inl JSONDecodeError),
      BeautifulSoup = None,
      pypdf = Some (\<lambda>f. if f = [] then Inl (OtherError ''EmptyFileError'') else Inr []),
      docx = None\<rparr>"

definition law_pdf_source :: SourceEntry where
  "law_pdf_source =
     \<lparr>id' = JString ''law'', title = JString ''Law'', type' = JString ''regulation'',
      path = JString ''law.pdf'', citation = JString [], scope = JArray []\<rparr>"

text \<open>
  A system whose only file is the manifest at the default path, with the content that
  parses to \<open>data\<close>; and two manifests of one entry, the first without the field \<open>id\<close>.
\<close>

definition manifest_env :: "json \<Rightarrow> env" where
  "manifest_env data =
     \<lparr>MANIFEST_PATH = ''data/sources_manifest.json'',
      path_exists = (\<lambda>p. p = ''data/sources_manifest.json''),
      open_text = (\<lambda>p. if p = ''data/sources_manifest.json'' then Inr ''manifest''
                         else Inl FileNotFoundError),
      open_text_ignore = (\<lambda>p. Inl FileNotFoundError),
      open_bytes = (\<lambda>p. Inl FileNotFoundError),
      json_loads = (\<lambda>s. if s = ''manifest'' then Inr data else Inl JSONDecodeError),
      BeautifulSoup = None,
      pypdf = None,
      docx = None\<rparr>"

definition manifest_missing_id :: json where
  "manifest_missing_id =
     JObject [(''sources'',
       JArray [JObject [(''title'', JString ''Employment Regulations''),
                        (''type'', JString ''regulation''),
                        (''path'', JString ''emp.html'')]])]"

definition manifest_complete :: json where
  "manifest_complete =
     JObject [(''sources'',
       JArray [JObject [(''id'', JString ''emp_regs''),
                        (''title'', JString ''Employment Regulations''),
                        (''type'', JString ''regulation''),
                        (''path'', JString ''emp.html'')]])]"

section \<open>Properties of the checklist engine\<close>

lemma classify_req_eq:
  "classify_req U req (present, missing) =
     (if requirement_met U req then (present @ [req], missing) else (present, missing @ [req]))"
  by (simp add: classify_req_def requirement_met_def split: option.split)

lemma classify_loop_filter:
  "classify_loop U reqs (present, missing) =
     (present @ filter (requirement_met U) reqs,
      missing @ filter (\<lambda>r. \<not> requirement_met U r) reqs)"
proof (induction reqs arbitrary: present missing)
  case Nil
  show ?case by simp
next
  case (Cons req reqs)
  show ?case
    by (simp add: classify_req_eq Cons.IH)
qed

lemma count_list_ge1: "(count_list xs x \<ge> 1) = (x \<in> set xs)"
  using count_list_0_iff [of xs x] by auto

text \<open>
  C5. \<open>compute_missing_docs\<close> walks the required list of the process in order; a
  composite requirement is present iff all of its constituent labels are in the set of
  uploaded labels, any other requirement iff its own label is; everything else is
  missing, and both lists keep the order of the required list. The result depends on
  the uploaded labels only through their set. For the incorporation process with the
  five uploaded labels of the specification, exactly
  \<open>Register of Members and Directors\<close> is missing.
\<close>

theorem compute_missing_docs_classifies:
  "compute_missing_docs process uploaded =
     (filter (requirement_met (set uploaded)) (required_docs process),
      filter (\<lambda>r. \<not> requirement_met (set uploaded) r) (required_docs process))
   \<and> (map_of SYNONYMS req = Some parts \<longrightarrow>
        requirement_met (set uploaded) req = (parts \<subseteq> set uploaded))
   \<and> (map_of SYNONYMS req = None \<longrightarrow>
        requirement_met (set uploaded) req = (req \<in> set uploaded))
   \<and> snd (compute_missing_docs ''Company Incorporation (Private Company)''
        [''Articles of Association'', ''Board Resolution'',
         ''Incorporation Application Form'', ''UBO Declaration Form'',
         ''Register of Members'']) = [''Register of Members and Directors'']"
proof -
  have general: "compute_missing_docs p u =
     (filter (requirement_met (set u)) (required_docs p),
      filter (\<lambda>r. \<not> requirement_met (set u) r) (required_docs p))" for p u
    by (simp add: compute_missing_docs_def Let_def classify_loop_filter)
  have composite: "map_of SYNONYMS req = Some parts \<longrightarrow>
        requirement_met (set uploaded) req = (parts \<subseteq> set uploaded)"
    by (simp add: requirement_met_def)
  have plain: "map_of SYNONYMS req = None \<longrightarrow>
        requirement_met (set uploaded) req = (req \<in> set uploaded)"
    by (simp add: requirement_met_def)
  have example: "snd (compute_missing_docs ''Company Incorporation (Private Company)''
        [''Articles of Association'', ''Board Resolution'',
         ''Incorporation Application Form'', ''UBO Declaration Form'',
         ''Register of Members'']) = [''Register of Members and Directors'']"
    by (simp add: general required_docs_def REQUIRED_DOCS_BY_PROCESS_def
        requirement_met_def SYNONYMS_def)
  from general [of process uploaded] composite plain example show ?thesis by blast
qed

theorem compute_missing_docs_classifies_witness:
  "compute_missing_docs ''AoA Amendment'' [''Shareholder Resolution'', ''Shareholder Resolution'']
     = ([''Shareholder Resolution''], [''Articles of Association''])
   \<and> map_of SYNONYMS ''Board Resolution'' = None
   \<and> map_of SYNONYMS ''Register of Members and Directors''
       = Some {''Register of Members'', ''Register of Directors''}
   \<and> \<not> requirement_met (set [''Shareholder Resolution'', ''Shareholder Resolution''])
         ''Register of Members and Directors''"
  using compute_missing_docs_classifies
    [of "''AoA Amendment''" "[''Shareholder Resolution'', ''Shareholder Resolution'']"
        "''Register of Members and Directors''"
        "{''Register of Members'', ''Register of Directors''}"]
  by (simp add: required_docs_def REQUIRED_DOCS_BY_PROCESS_def requirement_met_def SYNONYMS_def)

text \<open>
  C10. For a process name that is not a key of the required-documents table,
  \<open>compute_missing_docs\<close> returns two empty lists, whatever was uploaded; the model has
  no error branch, as the source raises nowhere on this path.
\<close>

theorem compute_missing_docs_unknown_process:
  "process \<notin> fst ` set REQUIRED_DOCS_BY_PROCESS \<Longrightarrow>
     compute_missing_docs process uploaded = ([], [])"
proof -
  assume "process \<notin> fst ` set REQUIRED_DOCS_BY_PROCESS"
  then have "map_of REQUIRED_DOCS_BY_PROCESS process = None"
    by (simp add: map_of_eq_None_iff)
  then show ?thesis
    by (simp add: compute_missing_docs_def required_docs_def)
qed

theorem compute_missing_docs_unknown_process_witness:
  "''Liquidation'' \<notin> fst ` set REQUIRED_DOCS_BY_PROCESS
   \<and> compute_missing_docs ''Liquidation'' [''Articles of Association''] = ([], [])"
proof -
  have h: "''Liquidation'' \<notin> fst ` set REQUIRED_DOCS_BY_PROCESS"
    by (simp add: REQUIRED_DOCS_BY_PROCESS_def)
  from h compute_missing_docs_unknown_process [OF h, of "[''Articles of Association'']"]
  show ?thesis by simp
qed

section \<open>Properties of process inference\<close>

text \<open>
  C6. \<open>infer_process\<close> applies its rules in a fixed order and the first match wins:
  amendment (shareholder resolution and articles of association), incorporation
  (articles of association with a shareholder or board resolution, or an incorporation
  application form), employment, data protection, otherwise Unknown; with the three
  examples of the specification.
\<close>

theorem infer_process_priority:
  "infer_process ds =
     (if ''Shareholder Resolution'' \<in> set ds \<and> ''Articles of Association'' \<in> set ds
      then ''AoA Amendment''
      else if (''Articles of Association'' \<in> set ds
               \<and> (''Shareholder Resolution'' \<in> set ds \<or> ''Board Resolution'' \<in> set ds))
              \<or> ''Incorporation Application Form'' \<in> set ds
      then ''Company Incorporation (Private Company)''
      else if ''Employment Contract'' \<in> set ds
      then ''Employment Compliance''
      else if ''Appropriate Policy Document'' \<in> set ds
      then ''Data Protection Compliance''
      else ''Unknown'')
   \<and> infer_process [''Employment Contract''] = ''Employment Compliance''
   \<and> infer_process [''Articles of Association'', ''Shareholder Resolution''] = ''AoA Amendment''
   \<and> infer_process [] = ''Unknown''"
proof -
  have general: "infer_process xs =
     (if ''Shareholder Resolution'' \<in> set xs \<and> ''Articles of Association'' \<in> set xs
      then ''AoA Amendment''
      else if (''Articles of Association'' \<in> set xs
               \<and> (''Shareholder Resolution'' \<in> set xs \<or> ''Board Resolution'' \<in> set xs))
              \<or> ''Incorporation Application Form'' \<in> set xs
      then ''Company Incorporation (Private Company)''
      else if ''Employment Contract'' \<in> set xs
      then ''Employment Compliance''
      else if ''Appropriate Policy Document'' \<in> set xs
      then ''Data Protection Compliance''
      else ''Unknown'')" for xs
    unfolding infer_process_def counts_def count_list_ge1 by (rule refl)
  have e1: "infer_process [''Employment Contract''] = ''Employment Compliance''"
    by (simp add: general)
  have e2: "infer_process [''Articles of Association'', ''Shareholder Resolution'']
      = ''AoA Amendment''"
    by (simp add: general)
  have e3: "infer_process [] = ''Unknown''"
    by (simp add: general)
  from general [of ds] e1 e2 e3 show ?thesis by blast
qed

theorem infer_process_priority_witness:
  "infer_process [''Board Resolution'', ''Articles of Association'', ''Employment Contract'']
     = ''Company Incorporation (Private Company)''"
  using infer_process_priority
    [of "[''Board Resolution'', ''Articles of Association'', ''Employment Contract'']"]
  by simp

section \<open>Properties of the chunker\<close>

lemma py_slice_window:
  "0 \<le> st \<Longrightarrow> 0 \<le> en \<Longrightarrow> en \<le> int (length text) \<Longrightarrow>
     py_slice text st en = drop (nat st) (take (nat en) text)"
  by (auto simp add: py_slice_def Let_def min_def)

lemma chunk_loop_windows:
  assumes "0 \<le> overlap" "overlap < size'"
  shows "0 \<le> start \<Longrightarrow> start < int (length text) \<Longrightarrow>
     chunk_loop text size' overlap start chunks =
       Some (chunks @ windows text (nat size') (nat overlap) (nat start))"
proof (induction "length text - nat start" arbitrary: start chunks rule: less_induct)
  case less
  let ?len = "int (length text)"
  show ?case
  proof (cases "start + size' < ?len")
    case False
    then have en: "min ?len (start + size') = ?len" by simp
    have sl: "py_slice text start ?len = drop (nat start) text"
      using less.prems by (simp add: py_slice_window)
    have ne: "drop (nat start) text \<noteq> []"
      using less.prems by simp
    have w: "windows text (nat size') (nat overlap) (nat start) = [drop (nat start) text]"
      using False less.prems assms by (subst windows.simps) auto
    show ?thesis
      using less.prems ne
      by (subst chunk_loop.simps) (simp add: en sl w Let_def)
  next
    case True
    then have en: "min ?len (start + size') = start + size'" by simp
    have sl: "py_slice text start (start + size') = take (nat size') (drop (nat start) text)"
    proof -
      have "py_slice text start (start + size') =
          drop (nat start) (take (nat (start + size')) text)"
        using less.prems True assms by (simp add: py_slice_window)
      also have "nat (start + size') = nat start + nat size'"
        using less.prems assms by (simp add: nat_add_distrib)
      finally show ?thesis by (simp add: take_drop add.commute)
    qed
    have ne: "take (nat size') (drop (nat start) text) \<noteq> []"
      using less.prems assms by auto
    let ?next = "start + size' - overlap"
    have nx: "max 0 (start + size' - overlap) = ?next"
      using less.prems assms by simp
    have n0: "0 \<le> ?next" and n1: "?next < ?len"
      using less.prems assms True by simp_all
    have dec: "length text - nat ?next < length text - nat start"
      using less.prems assms True by linarith
    have natnx: "nat ?next = nat start + nat size' - nat overlap"
      using less.prems assms by linarith
    have w: "windows text (nat size') (nat overlap) (nat start) =
        take (nat size') (drop (nat start) text)
          # windows text (nat size') (nat overlap) (nat ?next)"
      using True less.prems assms by (subst windows.simps) (simp add: natnx, linarith)
    have ih: "chunk_loop text size' overlap ?next (chunks @ [take (nat size') (drop (nat start) text)])
        = Some ((chunks @ [take (nat size') (drop (nat start) text)])
             @ windows text (nat size') (nat overlap) (nat ?next))"
      by (rule less.hyps [OF dec n0 n1])
    have neq: "start + size' \<noteq> ?len" using True by simp
    show ?thesis
      using less.prems ne neq
      by (subst chunk_loop.simps) (simp add: en sl nx w ih Let_def)
  qed
qed

lemma chunk_text_windows:
  assumes "0 \<le> overlap" "overlap < size'"
  shows "chunk_text text size' overlap =
     Some (if text = [] then [] else windows text (nat size') (nat overlap) 0)"
proof (cases "text = []")
  case True
  then show ?thesis
    by (simp add: chunk_text_def chunk_loop.simps)
next
  case False
  then have "(0::int) < int (length text)" by simp
  from chunk_loop_windows [OF assms _ this, of "[]"] False
  show ?thesis by (simp add: chunk_text_def)
qed

lemma drop_take_drop: "k \<le> n \<Longrightarrow> n \<le> length X \<Longrightarrow> drop k (take n X) @ drop n X = drop k X"
proof -
  assume a: "k \<le> n" "n \<le> length X"
  have "drop k (take n X @ drop n X) = drop k (take n X) @ drop (k - length (take n X)) (drop n X)"
    by (rule drop_append)
  moreover have "k - length (take n X) = 0" using a by simp
  ultimately have "drop k (take n X @ drop n X) = drop k (take n X) @ drop n X"
    by (simp only: drop_0)
  then show ?thesis by (simp only: append_take_drop_id)
qed

lemma concat_drop_windows:
  "k < n \<Longrightarrow> concat (map (drop k) (windows text n k start)) = drop (start + k) text"
proof (induction "text" n k start rule: windows.induct)
  case (1 "text" n k start)
  show ?case
  proof (cases "start + n < length text")
    case False
    then show ?thesis
      by (subst windows.simps) (simp add: add.commute)
  next
    case True
    have ih: "concat (map (drop k) (windows text n k (start + n - k)))
        = drop (start + n - k + k) text"
      using "1.IH" "1.prems" True by simp
    have "drop k (take n (drop start text)) @ drop n (drop start text)
        = drop k (drop start text)"
      using True "1.prems" by (intro drop_take_drop) simp_all
    moreover have "drop n (drop start text) = drop (start + n - k + k) text"
      using "1.prems" by (simp add: add.commute)
    moreover have "drop k (drop start text) = drop (start + k) text"
      by (simp add: add.commute)
    ultimately have "drop k (take n (drop start text)) @ drop (start + n - k + k) text
        = drop (start + k) text"
      by simp
    then show ?thesis
      using True "1.prems" ih by (subst windows.simps) simp
  qed
qed

lemma remove_overlaps_windows:
  assumes "k < n"
  shows "remove_overlaps (int k) (windows text n k start) = drop start text"
proof (cases "start + n < length text")
  case False
  then show ?thesis
    by (subst windows.simps) (simp add: remove_overlaps_def)
next
  case True
  have "take n (drop start text) @ drop (start + n - k + k) text = drop start text"
    using assms by (simp add: add.commute) (metis append_take_drop_id drop_drop)
  then show ?thesis
    using True assms
    by (subst windows.simps) (simp add: remove_overlaps_def concat_drop_windows)
qed

lemma ceil_shift:
  fixes a d :: int
  assumes "0 < d"
  shows "- ((- (a + d)) div d) = - ((- a) div d) + 1"
proof -
  have "(- (a + d)) div d = ((- a) + (- 1) * d) div d" by (simp add: algebra_simps)
  also have "\<dots> = (- a) div d + (- 1)"
    using assms by (subst div_mult_self1) simp_all
  finally show ?thesis by simp
qed

lemma neg_self_div: "0 < (d::int) \<Longrightarrow> (- d) div d = - 1"
  by (simp add: zdiv_zminus1_eq_if)

lemma length_windows:
  "k < n \<Longrightarrow> start < length text \<Longrightarrow>
     int (length (windows text n k start)) =
       max 1 (- ((- (int (length text) - int start - int k)) div (int n - int k)))"
proof (induction "text" n k start rule: windows.induct)
  case (1 "text" n k start)
  let ?d = "int n - int k"
  let ?a = "int (length text) - int start - int k"
  have d: "0 < ?d" using "1.prems" by simp
  show ?case
  proof (cases "start + n < length text")
    case False
    then have "?a \<le> ?d" by linarith
    then have "- ?d \<le> - ?a" by simp
    then have "(- ?d) div ?d \<le> (- ?a) div ?d"
      using d by (rule zdiv_mono1)
    moreover have "(- ?d) div ?d = - 1" using d by (rule neg_self_div)
    ultimately have "- ((- ?a) div ?d) \<le> 1" by linarith
    then show ?thesis
      using False by (subst windows.simps) simp
  next
    case True
    let ?s' = "start + n - k"
    have s': "?s' < length text" using True "1.prems" by linarith
    have ih: "int (length (windows text n k ?s')) =
       max 1 (- ((- (int (length text) - int ?s' - int k)) div ?d))"
      using "1.IH" True "1.prems" s' by simp
    let ?a' = "int (length text) - int ?s' - int k"
    have a': "?a = ?a' + ?d" using "1.prems" by (simp add: of_nat_diff)
    have pos: "0 < ?a'" using True "1.prems" by linarith
    have ge1: "1 \<le> - ((- ?a') div ?d)"
    proof -
      have "(- ?a') div ?d < 0" using pos d by (simp add: div_neg_pos_less0)
      then show ?thesis by linarith
    qed
    have "- ((- ?a) div ?d) = - ((- ?a') div ?d) + 1"
      unfolding a' using d by (rule ceil_shift)
    then show ?thesis
      using True "1.prems" ih ge1 by (subst windows.simps) simp
  qed
qed

lemma chunk_loop_ab_1_1:
  assumes "chunk_loop t s ov st cs = Some r"
  shows "\<not> (t = ''ab'' \<and> s = 1 \<and> ov = 1 \<and> st = 0)"
proof (rule chunk_loop.raw_induct
    [where P = "\<lambda>t s ov st cs r. \<not> (t = ''ab'' \<and> s = 1 \<and> ov = 1 \<and> st = 0)", OF _ assms])
  fix f :: "string \<Rightarrow> int \<Rightarrow> int \<Rightarrow> int \<Rightarrow> string list \<Rightarrow> string list option"
  fix t s ov st cs r
  assume IH: "\<And>t s ov st cs r. f t s ov st cs = Some r \<Longrightarrow>
     \<not> (t = ''ab'' \<and> s = 1 \<and> ov = 1 \<and> st = 0)"
  assume step: "(if st < int (length t)
      then let en = min (int (length t)) (st + s);
               chunk = py_slice t st en;
               chunks' = if chunk \<noteq> [] then cs @ [chunk] else cs
           in if en = int (length t) then Some chunks'
              else f t s ov (max 0 (en - ov)) chunks'
      else Some cs) = Some r"
  show "\<not> (t = ''ab'' \<and> s = 1 \<and> ov = 1 \<and> st = 0)"
  proof
    assume a: "t = ''ab'' \<and> s = 1 \<and> ov = 1 \<and> st = 0"
    with step have "f ''ab'' 1 1 0 (cs @ [''a'']) = Some r"
      by (simp add: py_slice_def Let_def)
    from IH [OF this] show False by simp
  qed
qed

text \<open>
  C2. For \<open>0 \<le> overlap < size\<close>, \<open>chunk_text\<close> returns, and concatenating its chunks
  after dropping the leading \<open>overlap\<close> characters of every chunk but the first gives the
  text back; the empty text gives no chunk.
\<close>

theorem chunk_text_reassembles:
  assumes "0 \<le> overlap" "overlap < size'"
  shows "\<exists>chunks. chunk_text text size' overlap = Some chunks
           \<and> remove_overlaps overlap chunks = text
           \<and> (text = [] \<longrightarrow> chunks = [])"
proof (cases "text = []")
  case True
  then show ?thesis
    using chunk_text_windows [OF assms, of "text"] by (simp add: remove_overlaps_def)
next
  case False
  have lt: "nat overlap < nat size'" using assms by simp
  have "remove_overlaps (int (nat overlap)) (windows text (nat size') (nat overlap) 0)
      = drop 0 text"
    by (rule remove_overlaps_windows [OF lt])
  then have "remove_overlaps overlap (windows text (nat size') (nat overlap) 0) = text"
    using assms by simp
  then show ?thesis
    using chunk_text_windows [OF assms, of "text"] False by simp
qed

theorem chunk_text_reassembles_witness:
  "chunk_text ''abcdefghij'' 4 1 = Some [''abcd'', ''defg'', ''ghij'']
   \<and> remove_overlaps 1 [''abcd'', ''defg'', ''ghij''] = ''abcdefghij''"
proof -
  have run: "chunk_text ''abcdefghij'' 4 1 = Some [''abcd'', ''defg'', ''ghij'']"
    by (simp add: chunk_text_def chunk_loop.simps py_slice_def Let_def)
  from chunk_text_reassembles [of 1 4 "''abcdefghij''"]
  obtain chunks where "chunk_text ''abcdefghij'' 4 1 = Some chunks"
    and "remove_overlaps 1 chunks = ''abcdefghij''"
    by auto
  with run show ?thesis by simp
qed

text \<open>
  C3, as the specification states it, fails for a non-empty text no longer than the
  overlap: \<open>chunk_text("a", 3, 1)\<close> returns one chunk, and the formula gives
  \<open>ceil(0 / 2) = 0\<close>.
\<close>

theorem chunk_count_counterexample:
  "chunk_text ''a'' 3 1 = Some [''a'']
   \<and> int (length [''a'']) \<noteq> expected_chunk_count ''a'' 3 1"
  by (simp add: chunk_text_def chunk_loop.simps py_slice_def Let_def expected_chunk_count_def)

text \<open>
  C3, amended. For a non-empty text and \<open>0 \<le> overlap < size\<close>, \<open>chunk_text\<close> returns
  \<open>max(1, ceil((len(text) - overlap) / (size - overlap)))\<close> chunks: the value of the
  formula whenever the text is longer than the overlap (exact multiples included), and
  one chunk for a text no longer than the overlap.
\<close>

theorem chunk_text_count:
  assumes "text \<noteq> []" "0 \<le> overlap" "overlap < size'"
  shows "\<exists>chunks. chunk_text text size' overlap = Some chunks
           \<and> int (length chunks) = max 1 (expected_chunk_count text size' overlap)
           \<and> (overlap < int (length text) \<longrightarrow>
                int (length chunks) = expected_chunk_count text size' overlap)
           \<and> (int (length text) \<le> overlap \<longrightarrow> length chunks = 1)"
proof -
  let ?w = "windows text (nat size') (nat overlap) 0"
  let ?a = "int (length text) - overlap"
  let ?d = "size' - overlap"
  have ret: "chunk_text text size' overlap = Some ?w"
    using chunk_text_windows [OF assms(2,3), of "text"] assms(1) by simp
  have lt: "nat overlap < nat size'" using assms by simp
  have pos: "0 < length text" using assms(1) by simp
  have d: "0 < ?d" using assms by simp
  have e: "expected_chunk_count text size' overlap = - ((- ?a) div ?d)"
    unfolding expected_chunk_count_def by (rule ceiling_divide_eq_div)
  have "int (length ?w) =
      max 1 (- ((- (int (length text) - int 0 - int (nat overlap))) div (int (nat size') - int (nat overlap))))"
    by (rule length_windows [OF lt pos])
  then have len: "int (length ?w) = max 1 (- ((- ?a) div ?d))"
    using assms by simp
  have long: "1 \<le> - ((- ?a) div ?d)" if "overlap < int (length text)"
  proof -
    have "- ?a < 0" using that by simp
    then have "(- ?a) div ?d < 0" using d by (simp add: div_neg_pos_less0)
    then show ?thesis by linarith
  qed
  have short: "- ((- ?a) div ?d) \<le> 0" if "int (length text) \<le> overlap"
  proof -
    have "0 \<le> - ?a" using that by simp
    then have "0 \<le> (- ?a) div ?d" using d by (simp add: pos_imp_zdiv_nonneg_iff)
    then show ?thesis by linarith
  qed
  from ret len e long short show ?thesis
    by (intro exI [of _ ?w]) auto
qed

theorem chunk_text_count_witness:
  "chunk_text ''abcdefghij'' 4 1 = Some [''abcd'', ''defg'', ''ghij'']
   \<and> expected_chunk_count ''abcdefghij'' 4 1 = 3
   \<and> chunk_text ''a'' 3 1 = Some [''a'']
   \<and> max 1 (expected_chunk_count ''a'' 3 1) = 1"
proof -
  have run: "chunk_text ''abcdefghij'' 4 1 = Some [''abcd'', ''defg'', ''ghij'']"
    "chunk_text ''a'' 3 1 = Some [''a'']"
    by (simp_all add: chunk_text_def chunk_loop.simps py_slice_def Let_def)
  from chunk_text_count [of "''abcdefghij''" 1 4] run(1)
  have "expected_chunk_count ''abcdefghij'' 4 1 = 3" by simp
  moreover from chunk_text_count [of "''a''" 1 3] run(2)
  have "max 1 (expected_chunk_count ''a'' 3 1) = 1" by simp
  ultimately show ?thesis using run by simp
qed

text \<open>
  C4. \<open>chunk_text\<close> does not return on every input: with \<open>overlap \<ge> size\<close> the next start
  is not beyond the previous one. For the text \<open>ab\<close> with size 1 and overlap 1 the loop
  restarts at offset 0 forever; the model has no value for it.
\<close>

theorem chunk_text_ab_1_1_never_returns: "chunk_text ''ab'' 1 1 = None"
proof (cases "chunk_text ''ab'' 1 1")
  case None
  then show ?thesis .
next
  case (Some r)
  then have "chunk_loop ''ab'' 1 1 0 [] = Some r"
    by (simp add: chunk_text_def)
  from chunk_loop_ab_1_1 [OF this] show ?thesis by simp
qed

section \<open>Properties of the filter stage and the re-ranker\<close>

lemma filter_by_scopes_eq:
  "filter_by_scopes (Some sc) cs =
     (if sc = [] \<or> filter (scope_matches (map lower sc)) cs = [] then cs
      else filter (scope_matches (map lower sc)) cs)"
  by (simp add: filter_by_scopes_def Let_def)

lemma filter_by_source_ids_eq:
  "filter_by_source_ids (Some sids) cs =
     (if sids = [] \<or> filter (source_id_matches sids) cs = [] then cs
      else filter (source_id_matches sids) cs)"
  by (simp add: filter_by_source_ids_def Let_def)

lemma filter_by_scopes_nonempty: "cs \<noteq> [] \<Longrightarrow> filter_by_scopes scopes cs \<noteq> []"
  by (cases scopes) (simp_all add: filter_by_scopes_def Let_def)

lemma filter_by_source_ids_nonempty: "cs \<noteq> [] \<Longrightarrow> filter_by_source_ids ids cs \<noteq> []"
  by (cases ids) (simp_all add: filter_by_source_ids_def Let_def)

lemma scope_matches_iff:
  "scope_matches (map lower sc) (d, m) =
     (\<exists>s \<in> set sc. sublist (lower s) (lower (get_or m ''scope'' [])))"
  by (simp add: scope_matches_def list_ex_iff)

text \<open>
  C1. For a non-empty candidate list, the scope filter followed by the source-id filter
  never gives an empty list. Each stage on its own returns its filtered list when that
  is not empty and its input unchanged otherwise (also when no filter was requested);
  a candidate passes the scope filter iff some requested scope, lower-cased, is a
  substring of its lower-cased scope metadata, and the source-id filter iff its
  \<open>source_id\<close> is in the allowlist.
\<close>

theorem filter_stages_never_empty:
  assumes "candidates \<noteq> []"
  shows "filter_by_source_ids ids (filter_by_scopes scopes candidates) \<noteq> []
     \<and> filter_by_scopes scopes candidates \<noteq> []
     \<and> (scopes = Some sc \<longrightarrow>
          filter_by_scopes scopes candidates =
            (if sc = [] \<or> filter (scope_matches (map lower sc)) candidates = [] then candidates
             else filter (scope_matches (map lower sc)) candidates))
     \<and> (ids = Some sids \<longrightarrow>
          filter_by_source_ids ids (filter_by_scopes scopes candidates) =
            (if sids = [] \<or> filter (source_id_matches sids) (filter_by_scopes scopes candidates) = []
             then filter_by_scopes scopes candidates
             else filter (source_id_matches sids) (filter_by_scopes scopes candidates)))
     \<and> scope_matches (map lower sc) (d, m) =
          (\<exists>s \<in> set sc. sublist (lower s) (lower (get_or m ''scope'' [])))
     \<and> source_id_matches sids (d, m) =
          (\<exists>v. map_of m ''source_id'' = Some v \<and> v \<in> set sids)"
proof -
  have mid: "filter_by_scopes scopes candidates \<noteq> []"
    using assms by (rule filter_by_scopes_nonempty)
  then have out: "filter_by_source_ids ids (filter_by_scopes scopes candidates) \<noteq> []"
    by (rule filter_by_source_ids_nonempty)
  have sid: "source_id_matches sids (d, m) =
          (\<exists>v. map_of m ''source_id'' = Some v \<and> v \<in> set sids)"
    by (simp add: source_id_matches_def split: option.split)
  have st1: "scopes = Some sc \<longrightarrow>
          filter_by_scopes scopes candidates =
            (if sc = [] \<or> filter (scope_matches (map lower sc)) candidates = [] then candidates
             else filter (scope_matches (map lower sc)) candidates)"
    by (intro impI, hypsubst, rule filter_by_scopes_eq)
  have st2: "ids = Some sids \<longrightarrow>
          filter_by_source_ids ids (filter_by_scopes scopes candidates) =
            (if sids = [] \<or> filter (source_id_matches sids) (filter_by_scopes scopes candidates) = []
             then filter_by_scopes scopes candidates
             else filter (source_id_matches sids) (filter_by_scopes scopes candidates))"
    using filter_by_source_ids_eq [of sids "filter_by_scopes scopes candidates"] by blast
  from out mid st1 st2 scope_matches_iff [of sc d m] sid show ?thesis
    by (intro conjI)
qed

theorem filter_stages_never_empty_witness:
  "filter_by_scopes (Some [''Employment''])
      [(''p1'', [(''source_id'', ''emp_regs''), (''scope'', ''Employment Contracts;HR'')]),
       (''p2'', [(''source_id'', ''companies''), (''scope'', ''Incorporation'')])]
     = [(''p1'', [(''source_id'', ''emp_regs''), (''scope'', ''Employment Contracts;HR'')])]
   \<and> filter_by_source_ids (Some [''no_such_source''])
        (filter_by_scopes (Some [''Employment''])
          [(''p1'', [(''source_id'', ''emp_regs''), (''scope'', ''Employment Contracts;HR'')]),
           (''p2'', [(''source_id'', ''companies''), (''scope'', ''Incorporation'')])])
     = [(''p1'', [(''source_id'', ''emp_regs''), (''scope'', ''Employment Contracts;HR'')])]
   \<and> filter_by_source_ids (Some [''no_such_source''])
        (filter_by_scopes (Some [''Employment''])
          [(''p1'', [(''source_id'', ''emp_regs''), (''scope'', ''Employment Contracts;HR'')]),
           (''p2'', [(''source_id'', ''companies''), (''scope'', ''Incorporation'')])])
     \<noteq> []"
proof -
  let ?c1 = "(''p1'', [(''source_id'', ''emp_regs''), (''scope'', ''Employment Contracts;HR'')])"
  let ?c2 = "(''p2'', [(''source_id'', ''companies''), (''scope'', ''Incorporation'')])"
  have ne: "[?c1, ?c2] \<noteq> []" by simp
  have m1: "scope_matches (map lower [''Employment'']) ?c1"
    by (simp add: scope_matches_def lower_def lower_char_def get_or_def sublist_code(3))
  have m2: "\<not> scope_matches (map lower [''Employment'']) ?c2"
    by (simp add: scope_matches_def lower_def lower_char_def get_or_def sublist_code(3))
  have s1: "\<not> source_id_matches [''no_such_source''] ?c1"
    by (simp add: source_id_matches_def)
  have run1: "filter_by_scopes (Some [''Employment'']) [?c1, ?c2] = [?c1]"
    using m1 m2 by (simp add: filter_by_scopes_eq)
  have run2: "filter_by_source_ids (Some [''no_such_source'']) [?c1] = [?c1]"
    using s1 by (simp add: filter_by_source_ids_eq)
  have "filter_by_source_ids (Some [''no_such_source''])
          (filter_by_scopes (Some [''Employment'']) [?c1, ?c2]) \<noteq> []"
    by (rule filter_stages_never_empty [OF ne, THEN conjunct1])
  with run1 run2 show ?thesis by (simp only: simp_thms)
qed

lemma sorted_reverse_mset: "mset (sorted_reverse key xs) = mset xs"
  by (simp add: sorted_reverse_def)

lemma sorted_reverse_descending:
  "sorted_wrt (\<lambda>a b. key a \<ge> key b) (sorted_reverse key xs)"
proof -
  have "sorted (map key (sort_key key (rev xs)))" by simp
  then have "sorted_wrt (\<lambda>a b. key a \<le> key b) (sort_key key (rev xs))"
    by (simp add: sorted_wrt_map)
  then show ?thesis
    by (simp add: sorted_reverse_def sorted_wrt_rev)
qed

lemma sorted_reverse_stable:
  "filter (\<lambda>p. key p = k) (sorted_reverse key xs) = filter (\<lambda>p. key p = k) xs"
proof -
  have "filter (\<lambda>p. key p = k) (sorted_reverse key xs)
      = rev (filter (\<lambda>p. key p = k) (sort_key key (rev xs)))"
    by (simp add: sorted_reverse_def rev_filter)
  also have "\<dots> = rev (filter (\<lambda>p. key p = k) (rev xs))"
    by (simp only: sort_key_stable)
  also have "\<dots> = filter (\<lambda>p. key p = k) xs"
    by (simp add: rev_filter)
  finally show ?thesis .
qed

lemma mset_map_fst_zip:
  "length ys = length xs \<Longrightarrow> mset ps = mset (zip xs ys) \<Longrightarrow> mset (map fst ps) = mset xs"
proof -
  assume len: "length ys = length xs" and perm: "mset ps = mset (zip xs ys)"
  have "mset (map fst ps) = image_mset fst (mset ps)" by simp
  also have "\<dots> = image_mset fst (mset (zip xs ys))" by (simp only: perm)
  also have "\<dots> = mset (map fst (zip xs ys))" by simp
  also have "map fst (zip xs ys) = xs" using len by simp
  finally show ?thesis .
qed

text \<open>
  C7. With one score for each candidate from the scoring model, the re-ranking step
  returns a permutation of its input. When the capability is missing or switched off,
  or scoring raises, the list is returned as it was. Otherwise the scored pairs are
  rearranged into descending order of score, and the pairs of any one score keep their
  original relative order.
\<close>

theorem rerank_stable_permutation:
  fixes CrossEncoder :: "('s::linorder) cross_encoder option"
  assumes contract: "\<And>predict scores. CrossEncoder = Some predict \<Longrightarrow>
      predict (map (\<lambda>(d, m). (query_text, d)) candidates) = Inr scores \<Longrightarrow>
      length scores = length candidates"
  shows "mset (rerank use_reranker CrossEncoder query_text candidates) = mset candidates
     \<and> (CrossEncoder = None \<or> \<not> use_reranker \<longrightarrow>
          rerank use_reranker CrossEncoder query_text candidates = candidates)
     \<and> (\<forall>predict e. CrossEncoder = Some predict
            \<and> predict (map (\<lambda>(d, m). (query_text, d)) candidates) = Inl e \<longrightarrow>
          rerank use_reranker CrossEncoder query_text candidates = candidates)
     \<and> (\<forall>predict scores. CrossEncoder = Some predict \<and> use_reranker \<and> candidates \<noteq> []
            \<and> predict (map (\<lambda>(d, m). (query_text, d)) candidates) = Inr scores \<longrightarrow>
          (\<exists>ranked. rerank use_reranker CrossEncoder query_text candidates = map fst ranked
             \<and> mset ranked = mset (zip candidates scores)
             \<and> sorted_wrt (\<lambda>a b. snd a \<ge> snd b) ranked
             \<and> (\<forall>k. filter (\<lambda>p. snd p = k) ranked
                    = filter (\<lambda>p. snd p = k) (zip candidates scores))))"
proof -
  let ?pairs = "map (\<lambda>(d, m). (query_text, d)) candidates"
  let ?r = "rerank use_reranker CrossEncoder query_text candidates"
  have off: "CrossEncoder = None \<or> \<not> use_reranker \<longrightarrow> ?r = candidates"
    by (auto simp add: rerank_def split: option.split)
  have failed: "\<forall>predict e. CrossEncoder = Some predict \<and> predict ?pairs = Inl e \<longrightarrow>
      ?r = candidates"
    by (auto simp add: rerank_def Let_def)
  have scored: "?r = map fst (sorted_reverse snd (zip candidates scores))"
    if "CrossEncoder = Some predict" "use_reranker" "candidates \<noteq> []"
       "predict ?pairs = Inr scores" for predict scores
    using that by (simp add: rerank_def Let_def)
  have ranked: "\<forall>predict scores. CrossEncoder = Some predict \<and> use_reranker \<and> candidates \<noteq> []
            \<and> predict ?pairs = Inr scores \<longrightarrow>
          (\<exists>ranked. ?r = map fst ranked
             \<and> mset ranked = mset (zip candidates scores)
             \<and> sorted_wrt (\<lambda>a b. snd a \<ge> snd b) ranked
             \<and> (\<forall>k. filter (\<lambda>p. snd p = k) ranked
                    = filter (\<lambda>p. snd p = k) (zip candidates scores)))"
  proof (intro allI impI)
    fix predict scores
    assume h: "CrossEncoder = Some predict \<and> use_reranker \<and> candidates \<noteq> []
            \<and> predict ?pairs = Inr scores"
    let ?ranked = "sorted_reverse snd (zip candidates scores)"
    have "?r = map fst ?ranked" using h scored by blast
    moreover have "mset ?ranked = mset (zip candidates scores)"
      by (rule sorted_reverse_mset)
    moreover have "sorted_wrt (\<lambda>a b. snd a \<ge> snd b) ?ranked"
      by (rule sorted_reverse_descending)
    moreover have "\<forall>k. filter (\<lambda>p. snd p = k) ?ranked
        = filter (\<lambda>p. snd p = k) (zip candidates scores)"
      by (simp add: sorted_reverse_stable)
    ultimately show "\<exists>ranked. ?r = map fst ranked
             \<and> mset ranked = mset (zip candidates scores)
             \<and> sorted_wrt (\<lambda>a b. snd a \<ge> snd b) ranked
             \<and> (\<forall>k. filter (\<lambda>p. snd p = k) ranked
                    = filter (\<lambda>p. snd p = k) (zip candidates scores))"
      by blast
  qed
  have perm: "mset ?r = mset candidates"
  proof (cases CrossEncoder)
    case None
    then show ?thesis using off by simp
  next
    case (Some predict)
    show ?thesis
    proof (cases "use_reranker \<and> candidates \<noteq> []")
      case False
      then show ?thesis using Some by (auto simp add: rerank_def)
    next
      case True
      show ?thesis
      proof (cases "predict ?pairs")
        case (Inl e)
        then show ?thesis using failed Some by simp
      next
        case (Inr scores)
        have len: "length scores = length candidates"
          using contract [OF Some Inr] .
        have "?r = map fst (sorted_reverse snd (zip candidates scores))"
          using scored [OF Some _ _ Inr] True by simp
        moreover have "mset (map fst (sorted_reverse snd (zip candidates scores))) = mset candidates"
          using len sorted_reverse_mset by (rule mset_map_fst_zip)
        ultimately show ?thesis by simp
      qed
    qed
  qed
  from perm off failed ranked show ?thesis by (intro conjI)
qed

theorem rerank_stable_permutation_witness:
  "rerank True (Some (\<lambda>pairs. Inr (map (\<lambda>(q, d). int (length d)) pairs))) ''q''
      [(''aa'', []), (''bbbb'', []), (''cc'', []), (''dddd'', [])]
     = [(''bbbb'', []), (''dddd'', []), (''aa'', []), (''cc'', [])]
   \<and> mset [(''bbbb'', []), (''dddd'', []), (''aa'', []), (''cc'', [])]
     = mset [(''aa'', []), (''bbbb'', []), (''cc'', []), (''dddd'', []) :: candidate]"
proof -
  let ?ce = "Some (\<lambda>pairs. Inr (map (\<lambda>(q, d). int (length d)) pairs)) :: int cross_encoder option"
  let ?cs = "[(''aa'', []), (''bbbb'', []), (''cc'', []), (''dddd'', [])] :: candidate list"
  have run: "rerank True ?ce ''q'' ?cs = [(''bbbb'', []), (''dddd'', []), (''aa'', []), (''cc'', [])]"
    by (simp add: rerank_def sorted_reverse_def)
  have c: "length scores = length ?cs"
    if "?ce = Some predict" "predict (map (\<lambda>(d, m). (''q'', d)) ?cs) = Inr scores"
    for predict scores
    using that by auto
  have "mset (rerank True ?ce ''q'' ?cs) = mset ?cs"
    by (rule rerank_stable_permutation [of ?ce "''q''" ?cs True, OF c, THEN conjunct1])
  with run show ?thesis by simp
qed

section \<open>Properties of text extraction and manifest loading\<close>

lemma read_text_fallback_returns:
  "lower (splitext_ext p) \<notin> {''.html'', ''.htm'', ''.pdf'', ''.docx''} \<Longrightarrow>
     \<exists>t. read_text env p = Inr t"
  by (auto simp add: read_text_def Let_def split: sum.split)

text \<open>
  C8. Extraction is not total at the per-source boundary: for a source whose path
  resolves to an empty PDF file, with \<open>pypdf\<close> installed, the reader's exception leaves
  \<open>read_text_from_source\<close> instead of the empty string. The plain-read branch of the
  same function does catch its exceptions (\<open>read_text_fallback_returns\<close>).
\<close>

theorem read_text_from_source_propagates:
  "read_text_from_source empty_pdf_env ''corpus'' law_pdf_source
     = Inl (OtherError ''EmptyFileError'')"
  by (simp add: read_text_from_source_def law_pdf_source_def resolve_source_path_def
      os_path_join_def empty_pdf_env_def read_text_def splitext_ext_def lower_def
      lower_char_def Let_def)

lemma make_entry_object:
  "make_entry (JObject kvs) =
     (case missing_field (JObject kvs) of
        Some k \<Rightarrow> Inl (KeyError k)
      | None \<Rightarrow>
          Inr \<lparr>id' = the (map_of kvs ''id''), title = the (map_of kvs ''title''),
               type' = the (map_of kvs ''type''), path = the (map_of kvs ''path''),
               citation = (case map_of kvs ''citation'' of None \<Rightarrow> JString [] | Some v \<Rightarrow> v),
               scope = (case map_of kvs ''scope'' of None \<Rightarrow> JArray [] | Some v \<Rightarrow> v)\<rparr>)"
  by (simp add: make_entry_def subscript_def dict_get_def missing_field_def required_fields_def
      split: option.split)

lemma load_entries_complete:
  "list_all is_object items \<Longrightarrow> list_all (\<lambda>i. missing_field i = None) items \<Longrightarrow>
     \<exists>entries. load_entries items acc = Inr (acc @ entries)
       \<and> map make_entry items = map Inr entries"
proof (induction items arbitrary: acc)
  case Nil
  then show ?case by simp
next
  case (Cons item items)
  from Cons.prems obtain kvs where obj: "item = JObject kvs"
    by (auto simp add: is_object_def split: json.splits)
  from Cons.prems obj obtain entry where mk: "make_entry item = Inr entry"
    by (auto simp add: make_entry_object)
  from Cons.prems have "list_all is_object items"
    and "list_all (\<lambda>i. missing_field i = None) items" by simp_all
  from Cons.IH [OF this, of "acc @ [entry]"]
  obtain entries where "load_entries items (acc @ [entry]) = Inr ((acc @ [entry]) @ entries)"
    and "map make_entry items = map Inr entries" by blast
  then have "load_entries (item # items) acc = Inr (acc @ (entry # entries))
       \<and> map make_entry (item # items) = map Inr (entry # entries)"
    using mk by simp
  then show ?case by blast
qed

lemma load_entries_incomplete:
  "list_all is_object items \<Longrightarrow> find (\<lambda>i. missing_field i \<noteq> None) items = Some bad \<Longrightarrow>
     missing_field bad = Some k \<Longrightarrow> load_entries items acc = Inl (KeyError k)"
proof (induction items arbitrary: acc)
  case Nil
  then show ?case by simp
next
  case (Cons item items)
  from Cons.prems obtain kvs where obj: "item = JObject kvs"
    by (auto simp add: is_object_def split: json.splits)
  show ?case
  proof (cases "missing_field item")
    case None
    then obtain entry where mk: "make_entry item = Inr entry"
      using obj by (auto simp add: make_entry_object)
    from Cons.prems None have "list_all is_object items"
      and "find (\<lambda>i. missing_field i \<noteq> None) items = Some bad" by simp_all
    from Cons.IH [OF this Cons.prems(3), of "acc @ [entry]"] mk
    show ?thesis by simp
  next
    case (Some k')
    with Cons.prems have "bad = item" by simp
    with Some Cons.prems have "k' = k" by simp
    with Some obj show ?thesis by (simp add: make_entry_object)
  qed
qed

text \<open>
  C9, as the specification states it, fails: loading a manifest whose entry has no \<open>id\<close>
  raises \<open>KeyError\<close>, not \<open>ManifestError\<close>.
\<close>

theorem load_missing_id_counterexample:
  "load (manifest_env manifest_missing_id) None = Inl (KeyError ''id'')
   \<and> exc_class (KeyError ''id'') \<noteq> ''ManifestError''"
  by (simp add: load_def manifest_path_of_def manifest_env_def manifest_missing_id_def
      dict_get_def iterate_def make_entry_def subscript_def)

text \<open>
  C9, amended. \<open>load\<close> raises no \<open>ManifestError\<close>; the exception of the failing step
  propagates. If the file cannot be opened, \<open>load\<close> fails with the exception of \<open>open\<close>;
  if its content is not valid JSON, with the exception of the parser. For a manifest that
  parses to an object whose \<open>sources\<close> (by default the empty list) is a list of objects,
  \<open>load\<close> succeeds exactly when every entry has the four required fields, and otherwise
  raises \<open>KeyError\<close> for the first required field missing from the first entry that
  lacks one, so that no manifest is returned.
\<close>

theorem load_failure_cases:
  "(open_text env (manifest_path_of env p) = Inl e \<longrightarrow> load env p = Inl e)
   \<and> (open_text env (manifest_path_of env p) = Inr content \<and> json_loads env content = Inl e
        \<longrightarrow> load env p = Inl e)
   \<and> (open_text env (manifest_path_of env p) = Inr content
        \<and> json_loads env content = Inr (JObject kvs)
        \<and> (case map_of kvs ''sources'' of None \<Rightarrow> items = [] | Some v \<Rightarrow> v = JArray items)
        \<and> list_all is_object items
        \<longrightarrow> ((\<exists>m. load env p = Inr m) = list_all (\<lambda>i. missing_field i = None) items)
          \<and> (list_all (\<lambda>i. missing_field i = None) items \<longrightarrow>
                (\<exists>entries. load env p = Inr (SourcesManifest entries)
                   \<and> map make_entry items = map Inr entries))
          \<and> (find (\<lambda>i. missing_field i \<noteq> None) items = Some bad \<and> missing_field bad = Some k
                \<longrightarrow> load env p = Inl (KeyError k) \<and> k \<in> set required_fields
                    \<and> exc_class (KeyError k) \<noteq> ''ManifestError''))"
proof (intro conjI impI)
  assume "open_text env (manifest_path_of env p) = Inl e"
  then show "load env p = Inl e" by (simp add: load_def)
next
  assume "open_text env (manifest_path_of env p) = Inr content \<and> json_loads env content = Inl e"
  then show "load env p = Inl e" by (simp add: load_def)
next
  assume shape: "open_text env (manifest_path_of env p) = Inr content
        \<and> json_loads env content = Inr (JObject kvs)
        \<and> (case map_of kvs ''sources'' of None \<Rightarrow> items = [] | Some v \<Rightarrow> v = JArray items)
        \<and> list_all is_object items"
  then have objs: "list_all is_object items" by simp
  from shape have ld: "load env p =
      (case load_entries items [] of Inl e \<Rightarrow> Inl e | Inr entries \<Rightarrow> Inr (SourcesManifest entries))"
    by (auto simp add: load_def dict_get_def iterate_def split: option.splits)
  have ok: "\<exists>entries. load env p = Inr (SourcesManifest entries)
      \<and> map make_entry items = map Inr entries"
    if "list_all (\<lambda>i. missing_field i = None) items"
  proof -
    from load_entries_complete [OF objs that, of "[]"]
    obtain entries where "load_entries items [] = Inr entries"
      and "map make_entry items = map Inr entries" by auto
    then show ?thesis using ld by simp
  qed
  have bad: "load env p = Inl (KeyError k')"
    if "find (\<lambda>i. missing_field i \<noteq> None) items = Some b" "missing_field b = Some k'" for b k'
    using load_entries_incomplete [OF objs that, of "[]"] ld by simp
  have fails: "\<not> (\<exists>m. load env p = Inr m)"
    if "\<not> list_all (\<lambda>i. missing_field i = None) items"
  proof -
    from that obtain b where "find (\<lambda>i. missing_field i \<noteq> None) items = Some b"
      by (cases "find (\<lambda>i. missing_field i \<noteq> None) items")
         (auto simp add: find_None_iff list_all_iff)
    moreover from this have "missing_field b \<noteq> None"
      by (auto simp add: find_Some_iff)
    then obtain k' where "missing_field b = Some k'" by auto
    ultimately have "load env p = Inl (KeyError k')" by (rule bad)
    then show ?thesis by simp
  qed
  show "(\<exists>m. load env p = Inr m) = list_all (\<lambda>i. missing_field i = None) items"
    using ok fails by blast
  {
    assume "list_all (\<lambda>i. missing_field i = None) items"
    then show "\<exists>entries. load env p = Inr (SourcesManifest entries)
        \<and> map make_entry items = map Inr entries"
      by (rule ok)
  }
  {
    assume h: "find (\<lambda>i. missing_field i \<noteq> None) items = Some bad \<and> missing_field bad = Some k"
    then show "load env p = Inl (KeyError k)" using bad by blast
    from h have "\<exists>kvs'. bad = JObject kvs' \<and> find (\<lambda>f. map_of kvs' f = None) required_fields = Some k"
      by (auto simp add: missing_field_def split: json.splits)
    then show "k \<in> set required_fields"
      by (auto simp add: find_Some_iff)
    show "exc_class (KeyError k) \<noteq> ''ManifestError''" by simp
  }
qed

theorem load_failure_cases_witness:
  "load (manifest_env manifest_missing_id) None = Inl (KeyError ''id'')
   \<and> (\<exists>m. load (manifest_env manifest_complete) None = Inr m)
   \<and> load (manifest_env manifest_complete) (Some ''elsewhere.json'') = Inl FileNotFoundError"
proof -
  let ?item = "JObject [(''title'', JString ''Employment Regulations''),
                        (''type'', JString ''regulation''),
                        (''path'', JString ''emp.html'')]"
  let ?good = "JObject [(''id'', JString ''emp_regs''),
                        (''title'', JString ''Employment Regulations''),
                        (''type'', JString ''regulation''),
                        (''path'', JString ''emp.html'')]"
  have mf: "missing_field ?item = Some ''id''"
    by (simp add: missing_field_def required_fields_def)
  have mg: "missing_field ?good = None"
    by (simp add: missing_field_def required_fields_def)
  have a: "load (manifest_env manifest_missing_id) None = Inl (KeyError ''id'')"
    using load_failure_cases
      [of "manifest_env manifest_missing_id" None _ "''manifest''"
          "[(''sources'', JArray [?item])]" "[?item]" ?item "''id''"] mf
    by (simp add: manifest_env_def manifest_missing_id_def manifest_path_of_def is_object_def)
  have b: "\<exists>m. load (manifest_env manifest_complete) None = Inr m"
    using load_failure_cases
      [of "manifest_env manifest_complete" None _ "''manifest''"
          "[(''sources'', JArray [?good])]" "[?good]"] mg
    by (simp add: manifest_env_def manifest_complete_def manifest_path_of_def is_object_def)
  have c: "load (manifest_env manifest_complete) (Some ''elsewhere.json'') = Inl FileNotFoundError"
    using load_failure_cases
      [of "manifest_env manifest_complete" "Some ''elsewhere.json''" FileNotFoundError]
    by (simp add: manifest_env_def manifest_path_of_def)
  from a b c show ?thesis by (intro conjI)
qed

end
